theory Spec2Isabelle
  imports Main
begin

section \<open>JavaScript values used by the validator\<close>

text \<open>
  A JavaScript string is a sequence of UTF-16 code units; a code unit is modelled by its
  number. ASCII literals of the source are written \<open>js ''...''\<close>. A leading underscore
  of a source name (\<open>_resolve\<close>, \<open>_possible\<close>, \<open>_clone\<close>, \<open>_value\<close>) is written as
  the prefix \<open>u_\<close>.
\<close>

type_synonym jsstring = "nat list"

definition js :: "string \<Rightarrow> jsstring" where
  "js s = map of_char s"

text \<open>
  The class \<open>\s\<close> of an ECMAScript regular expression: the WhiteSpace and LineTerminator
  code points (TAB, LF, VT, FF, CR, SP, NBSP, U+1680, U+2000 to U+200A, U+2028, U+2029,
  U+202F, U+205F, U+3000, U+FEFF). \<open>\S\<close> is its complement, and \<open>/\S/.test(s)\<close> searches
  \<open>s\<close> for one code unit outside the class.
\<close>

definition isWhiteSpace :: "nat \<Rightarrow> bool" where
  "isWhiteSpace c \<longleftrightarrow>
     c = 9 \<or> c = 10 \<or> c = 11 \<or> c = 12 \<or> c = 13 \<or> c = 32 \<or> c = 160 \<or> c = 5760 \<or>
     (8192 \<le> c \<and> c \<le> 8202) \<or> c = 8232 \<or> c = 8233 \<or> c = 8239 \<or> c = 8287 \<or>
     c = 12288 \<or> c = 65279"

definition test_nonspace :: "jsstring \<Rightarrow> bool" where
  "test_nonspace s = list_ex (\<lambda>c. \<not> isWhiteSpace c) s"

text \<open>
  \<open>params[0]\<close> as the argument of \<open>RegExp.test\<close>: a missing element is \<open>undefined\<close>,
  which \<open>test\<close> converts to the string \<open>"undefined"\<close>.
\<close>

definition param0_toString :: "jsstring list \<Rightarrow> jsstring" where
  "param0_toString params = (case params of [] \<Rightarrow> js ''undefined'' | p # _ \<Rightarrow> p)"

text \<open>\<open>params[0]\<close> as a value: \<open>None\<close> is \<open>undefined\<close>.\<close>

definition param0 :: "jsstring list \<Rightarrow> jsstring option" where
  "param0 params = (case params of [] \<Rightarrow> None | p # _ \<Rightarrow> Some p)"

text \<open>\<open>Array.prototype.join()\<close> on an array of strings, with the default separator.\<close>

fun join :: "jsstring list \<Rightarrow> jsstring" where
  "join [] = []"
| "join [x] = x"
| "join (x # y # ys) = x @ js '','' @ join (y # ys)"

text \<open>Exceptions thrown by the code, and validation errors it returns.\<close>

datatype error = Error jsstring | TypeError

datatype validation_error = ValidationError jsstring

text \<open>
  \<open>FireEventResult = false | undefined | ValidationError[]\<close>: \<open>false\<close> is \<open>Ok\<close>,
  \<open>undefined\<close> is \<open>NoMatch\<close>. \<open>EndResult = false | ValidationError[]\<close>.
\<close>

datatype fire_result = Ok | NoMatch | Errors "validation_error list"

datatype end_result = EndOk | EndErrors "validation_error list"

section \<open>Events and their interning\<close>

text \<open>
  The static fields \<open>Event.__cache\<close> and \<open>Event.__id\<close> are the record \<open>event_static\<close>.
  The constructor takes its parameters either directly or as one array; for string
  parameters both forms give the same \<open>params\<close> array, which is the argument here.
\<close>

record event =
  event_id :: nat
  params :: "jsstring list"
  key :: jsstring

record event_static =
  cache :: "jsstring \<rightharpoonup> event"
  next_event_id :: nat

definition Event_constructor :: "jsstring list \<Rightarrow> event_static \<Rightarrow> event \<times> event_static" where
  "Event_constructor ps st =
     (let k = join ps in
      case cache st k of
        Some cached \<Rightarrow> (cached, st)
      | None \<Rightarrow>
          (let this = \<lparr>event_id = next_event_id st, params = ps, key = k\<rparr>
           in (this, st\<lparr>cache := (cache st)(k \<mapsto> this),
                        next_event_id := Suc (next_event_id st)\<rparr>)))"

text \<open>The module creates \<open>emptyEvent = new Event("<empty>")\<close> when it is loaded.\<close>

definition event_static_init :: event_static where
  "event_static_init = snd (Event_constructor [js ''<empty>''] \<lparr>cache = Map.empty, next_event_id = 0\<rparr>)"

section \<open>The Empty walker's event handler\<close>

definition EmptyWalker_fireEvent :: "jsstring \<Rightarrow> jsstring list \<Rightarrow> fire_result" where
  "EmptyWalker_fireEvent name ps =
     (if name = js ''text'' \<and> \<not> test_nonspace (param0_toString ps) then Ok else NoMatch)"

section \<open>Datatypes and name resolvers: the interfaces the patterns use\<close>

text \<open>
  The datatype library and the name resolver are collaborators of the pattern classes.
  A name resolver's state is a value of the type variable \<open>'r\<close>; \<open>NameResolver_ops\<close>
  gives \<open>new NameResolver()\<close> and \<open>definePrefix\<close>. A \<open>Datatype\<close> has the members the
  Value pattern and its walker call; a context \<open>{resolver: nr} | undefined\<close> is passed as
  the resolver's state or \<open>None\<close>. \<open>parseValue\<close> may throw. The first argument of \<open>equal\<close>
  is \<open>params[0]\<close>, which is \<open>undefined\<close> (\<open>None\<close>) when the event has no parameter.
\<close>

record 'r NameResolver_ops =
  nr_new :: 'r
  nr_definePrefix :: "jsstring \<Rightarrow> jsstring \<Rightarrow> 'r \<Rightarrow> 'r"

record ('v, 'r) Datatype =
  needsContext :: bool
  parseValue :: "jsstring \<Rightarrow> jsstring \<Rightarrow> 'r option \<Rightarrow> error + 'v"
  equal :: "jsstring option \<Rightarrow> 'v \<Rightarrow> 'r option \<Rightarrow> bool"

text \<open>
  \<open>registry.get(uri)\<close> returns a library or throws; \<open>.types[type]\<close> is a lookup in the
  library's table of types.
\<close>

type_synonym ('v, 'r) registry = "jsstring \<Rightarrow> error + (jsstring \<rightharpoonup> ('v, 'r) Datatype)"

section \<open>Patterns\<close>

text \<open>
  \<open>BasePattern\<close> gives every pattern its \<open>id\<close> (the number \<open>n\<close> of \<open>P<n>\<close>, drawn from
  the static counter \<open>Pattern.__id\<close>) and its \<open>xmlPath\<close>.
\<close>

record base =
  pattern_id :: nat
  xmlPath :: jsstring

record ('v, 'r) Value = base +
  datatype_of :: "('v, 'r) Datatype"
  rawValue :: jsstring
  type_name :: jsstring
  datatypeLibrary :: jsstring
  ns :: jsstring
  u_value_field :: "'v option"

text \<open>
  The pattern classes of the source. \<open>Ref\<close> holds its name and \<open>resolvesTo\<close>, a reference
  to a \<open>Define\<close> object: references are addresses into a store of patterns, since the
  graph of references is cyclic.
\<close>

datatype ('v, 'r) pattern =
    Empty base
  | ValueP "('v, 'r) Value"
  | TwoSubpatterns base "('v, 'r) pattern" "('v, 'r) pattern"
  | Ref base jsstring "nat option"
  | Define base jsstring "('v, 'r) pattern"



fun base_of :: "('v, 'r) pattern \<Rightarrow> base" where
  "base_of (Empty b) = b"
| "base_of (ValueP v) = \<lparr>pattern_id = pattern_id v, xmlPath = xmlPath v\<rparr>"
| "base_of (TwoSubpatterns b a c) = b"
| "base_of (Ref b n r) = b"
| "base_of (Define b n p) = b"

text \<open>\<open>new BasePattern(xmlPath)\<close>: draws the next id.\<close>

definition BasePattern_constructor :: "jsstring \<Rightarrow> nat \<Rightarrow> base \<times> nat" where
  "BasePattern_constructor path next_id = (\<lparr>pattern_id = next_id, xmlPath = path\<rparr>, Suc next_id)"

subsection \<open>Resolution\<close>

text \<open>
  \<open>_resolve(definitions)\<close> returns \<open>Ref[] | undefined\<close> and assigns \<open>resolvesTo\<close> in every
  \<open>Ref\<close> it reaches, so the model returns the list and the updated pattern. The
  definitions are a map from names to references to \<open>Define\<close> objects.
\<close>

fun u_resolve :: "(jsstring \<rightharpoonup> nat) \<Rightarrow> ('v, 'r) pattern \<Rightarrow> ('v, 'r) pattern list option \<times> ('v, 'r) pattern" where
  "u_resolve definitions (Empty b) = (None, Empty b)"
| "u_resolve definitions (ValueP v) = (None, ValueP v)"
| "u_resolve definitions (Define b n p) =
     (let (r, p') = u_resolve definitions p in (r, Define b n p'))"
| "u_resolve definitions (TwoSubpatterns b patA patB) =
     (let (a, patA') = u_resolve definitions patA;
          (b', patB') = u_resolve definitions patB;
          this = TwoSubpatterns b patA' patB'
      in case (a, b') of
           (Some xs, Some ys) \<Rightarrow> (Some (xs @ ys), this)
         | (Some xs, None) \<Rightarrow> (Some xs, this)
         | (None, _) \<Rightarrow> (b', this))"
| "u_resolve definitions (Ref b name resolvesTo) =
     (let this = Ref b name (definitions name)
      in if definitions name = None then (Some [this], this) else (None, this))"

text \<open>
  The words of the specification, for comparison: the references of a pattern are the
  \<open>Ref\<close> nodes of its own tree, in document order (the traversal follows the children
  \<open>pat\<close>, \<open>patA\<close> and \<open>patB\<close> only, never \<open>resolvesTo\<close>); binding sets each one's
  \<open>resolvesTo\<close> to the definition of its name.
\<close>

fun refs :: "('v, 'r) pattern \<Rightarrow> (base \<times> jsstring) list" where
  "refs (Empty b) = []"
| "refs (ValueP v) = []"
| "refs (Define b n p) = refs p"
| "refs (TwoSubpatterns b patA patB) = refs patA @ refs patB"
| "refs (Ref b name resolvesTo) = [(b, name)]"

fun bind_refs :: "(jsstring \<rightharpoonup> nat) \<Rightarrow> ('v, 'r) pattern \<Rightarrow> ('v, 'r) pattern" where
  "bind_refs definitions (Empty b) = Empty b"
| "bind_refs definitions (ValueP v) = ValueP v"
| "bind_refs definitions (Define b n p) = Define b n (bind_refs definitions p)"
| "bind_refs definitions (TwoSubpatterns b patA patB) =
     TwoSubpatterns b (bind_refs definitions patA) (bind_refs definitions patB)"
| "bind_refs definitions (Ref b name resolvesTo) = Ref b name (definitions name)"

definition unresolved_refs :: "(jsstring \<rightharpoonup> nat) \<Rightarrow> ('v, 'r) pattern \<Rightarrow> ('v, 'r) pattern list" where
  "unresolved_refs definitions p =
     map (\<lambda>(b, name). Ref b name None) (filter (\<lambda>(b, name). definitions name = None) (refs p))"

definition list_or_undefined :: "'a list \<Rightarrow> 'a list option" where
  "list_or_undefined xs = (if xs = [] then None else Some xs)"

subsection \<open>The Value pattern\<close>

text \<open>
  The constructor: \<open>super(xmlPath)\<close> draws the pattern's id, then the datatype is looked
  up in the registry; an unknown type throws. The defaults of the parameters \<open>type\<close>,
  \<open>datatypeLibrary\<close> and \<open>ns\<close> apply when the argument is \<open>undefined\<close> (\<open>None\<close>). The
  counter \<open>Pattern.__id\<close> has advanced also when the constructor throws.
\<close>

definition Value_constructor ::
  "('v, 'r) registry \<Rightarrow> jsstring \<Rightarrow> jsstring \<Rightarrow> jsstring option \<Rightarrow> jsstring option \<Rightarrow>
   jsstring option \<Rightarrow> nat \<Rightarrow> (error + ('v, 'r) Value) \<times> nat" where
  "Value_constructor registry path val type_arg library_arg ns_arg next_id =
     (let ty = (case type_arg of None \<Rightarrow> js ''token'' | Some t \<Rightarrow> t);
          lib = (case library_arg of None \<Rightarrow> js '''' | Some l \<Rightarrow> l);
          nsp = (case ns_arg of None \<Rightarrow> js '''' | Some n \<Rightarrow> n);
          (b, next_id') = BasePattern_constructor path next_id
      in case registry lib of
           Inl e \<Rightarrow> (Inl e, next_id')
         | Inr types \<Rightarrow>
             (case types ty of
                None \<Rightarrow> (Inl (Error (js ''unknown type: '' @ ty)), next_id')
              | Some dt \<Rightarrow>
                  (Inr \<lparr>pattern_id = pattern_id b, xmlPath = xmlPath b, datatype_of = dt,
                        rawValue = val, type_name = ty, datatypeLibrary = lib, ns = nsp,
                        u_value_field = None\<rparr>, next_id')))"

text \<open>
  The getter \<open>value\<close>: returns the memoised \<open>_value\<close> when there is one; otherwise it
  builds the pseudo-context (a new resolver with the default prefix bound to \<open>ns\<close>, when
  the datatype needs a context), parses the raw value, stores the result in \<open>_value\<close>
  and returns it. When \<open>parseValue\<close> throws, nothing is stored.
\<close>

definition Value_value ::
  "'r NameResolver_ops \<Rightarrow> ('v, 'r) Value \<Rightarrow> error + ('v \<times> ('v, 'r) Value)" where
  "Value_value ops this =
     (case u_value_field this of
        Some ret \<Rightarrow> Inr (ret, this)
      | None \<Rightarrow>
          (let context = (if needsContext (datatype_of this)
                          then Some (nr_definePrefix ops (js '''') (ns this) (nr_new ops))
                          else None)
           in case parseValue (datatype_of this) (xmlPath this) (rawValue this) context of
                Inl e \<Rightarrow> Inl e
              | Inr ret \<Rightarrow> Inr (ret, this\<lparr>u_value_field := Some ret\<rparr>)))"

definition Value_hasEmptyPattern :: "('v, 'r) Value \<Rightarrow> bool" where
  "Value_hasEmptyPattern this \<longleftrightarrow> rawValue this = js ''''"

section \<open>Walkers\<close>

text \<open>
  \<open>Walker<T>\<close> holds \<open>id\<close> (the number \<open>n\<close> of \<open>W<n>\<close>, drawn from the static counter
  \<open>Walker.__id\<close>), the pattern \<open>el\<close>, the cached possibility set and the flag
  \<open>suppressedAttributes\<close>. An event set is an object: \<open>possibleCached\<close> holds its address
  in a heap of sets. The Empty and Value walkers add the fields \<open>canEnd\<close> and
  \<open>canEndAttribute\<close>; the Value walker adds \<open>matched\<close>, \<open>context\<close> and \<open>nameResolver\<close>.
  A name resolver is an object shared by the walkers of one tree and changed by the
  caller between events: a walker holds its address in a heap of resolvers, and
  \<open>context\<close> is \<open>{resolver: nr}\<close> with the same address, or \<open>undefined\<close>.
\<close>

record 'p wbase =
  walker_id :: nat
  el :: 'p
  possibleCached :: "nat option"
  suppressedAttributes :: bool

record 'p internal_walker = "'p wbase" +
  canEnd :: bool
  canEndAttribute :: bool

record ('v, 'r) value_walker = "('v, 'r) Value internal_walker" +
  matched :: bool
  context_obj :: "nat option"
  nameResolver :: nat

text \<open>
  \<open>DefineWalker\<close> is a \<open>SingleSubwalker\<close>: the fields of \<open>Walker\<close>, its \<open>nameResolver\<close>
  and its \<open>subwalker\<close>.
\<close>

datatype ('v, 'r) walker =
    EmptyWalker "base internal_walker"
  | ValueWalker "('v, 'r) value_walker"
  | DefineWalker "('v, 'r) pattern wbase" nat "('v, 'r) walker"



subsection \<open>Construction\<close>

text \<open>
  The two branches of the constructor of \<open>Walker\<close>: from a pattern, and from another
  walker (the copy keeps \<open>el\<close>, the address of the cached set and the flag). Both draw a
  new id.
\<close>

definition Walker_constructor :: "'p \<Rightarrow> nat \<Rightarrow> 'p wbase \<times> nat" where
  "Walker_constructor e next_id =
     (\<lparr>walker_id = next_id, el = e, possibleCached = None, suppressedAttributes = False\<rparr>,
      Suc next_id)"




definition ValueWalker_new :: "('v, 'r) Value \<Rightarrow> nat \<Rightarrow> nat \<Rightarrow> ('v, 'r) value_walker \<times> nat" where
  "ValueWalker_new e resolver next_id =
     (let (b, next_id') = Walker_constructor e next_id
      in (\<lparr>walker_id = walker_id b, el = el b, possibleCached = possibleCached b,
            suppressedAttributes = suppressedAttributes b,
            canEnd = Value_hasEmptyPattern e, canEndAttribute = Value_hasEmptyPattern e,
            matched = False,
            context_obj = (if needsContext (datatype_of e) then Some resolver else None),
            nameResolver = resolver\<rparr>, next_id'))"



subsection \<open>Events\<close>

text \<open>
  The Value walker's \<open>fireEvent\<close>. The condition is evaluated left to right: the getter
  \<open>this.el.value\<close> runs (and may throw, or memoise the parsed value in the pattern) only
  when the walker has not matched and the event is a text event. The pattern's memo is
  kept in the walker's \<open>el\<close>; \<open>parseValue\<close> is a function of its arguments, so the memo
  holds the same value wherever the pattern is reached from. \<open>cells\<close> gives the state of
  each name resolver at the time of the event.
\<close>

definition ValueWalker_fireEvent ::
  "'r NameResolver_ops \<Rightarrow> (nat \<Rightarrow> 'r) \<Rightarrow> ('v, 'r) value_walker \<Rightarrow> jsstring \<Rightarrow> jsstring list \<Rightarrow>
   error + (fire_result \<times> ('v, 'r) value_walker)" where
  "ValueWalker_fireEvent ops cells this name ps =
     (if matched this \<or> name \<noteq> js ''text'' then Inr (NoMatch, this)
      else case Value_value ops (el this) of
             Inl e \<Rightarrow> Inl e
           | Inr (v, el') \<Rightarrow>
               (if \<not> equal (datatype_of (el this)) (param0 ps) v (map_option cells (context_obj this))
                then Inr (NoMatch, this\<lparr>el := el'\<rparr>)
                else Inr (Ok, this\<lparr>el := el', matched := True, canEnd := True,
                                   canEndAttribute := True, possibleCached := None\<rparr>)))"

definition ValueWalker_end :: "('v, 'r) value_walker \<Rightarrow> bool \<Rightarrow> end_result" where
  "ValueWalker_end this attribute =
     (if canEnd this then EndOk
      else EndErrors [ValidationError (js ''value required: '' @ rawValue (el this))])"



subsection \<open>Possibility sets\<close>

text \<open>
  The heap of event sets, with the static state of the class \<open>Event\<close>, since building a
  possibility set constructs events. A set object holds its events; addresses from
  \<open>set_next\<close> on are free.
\<close>

record pworld =
  set_cells :: "nat \<Rightarrow> event list"
  set_next :: nat
  events :: event_static

text \<open>
  Modelled from the spec: the classes \<open>EventSet\<close> (\<open>NaiveSet\<close>) and \<open>makeEventSet\<close>,
  whose module is not part of the sources at hand. \<open>new EventSet(initial)\<close> and
  \<open>makeEventSet(...)\<close> create a new set object holding the given events (``the
  possibility set returned is fresh and owned by the caller'').
\<close>

definition new_EventSet :: "event list \<Rightarrow> pworld \<Rightarrow> nat \<times> pworld" where
  "new_EventSet evs pw =
     (set_next pw, pw\<lparr>set_cells := (set_cells pw)(set_next pw := evs),
                      set_next := Suc (set_next pw)\<rparr>)"

definition EmptyWalker_possible :: "base internal_walker \<Rightarrow> pworld \<Rightarrow> nat \<times> pworld" where
  "EmptyWalker_possible this pw = new_EventSet [] pw"

definition EmptyWalker_u_possible ::
  "base internal_walker \<Rightarrow> pworld \<Rightarrow> nat \<times> base internal_walker \<times> pworld" where
  "EmptyWalker_u_possible this pw =
     (case possibleCached this of
        Some a \<Rightarrow> (a, this, pw)
      | None \<Rightarrow> (let (a, pw') = new_EventSet [] pw in (a, this\<lparr>possibleCached := Some a\<rparr>, pw')))"

definition ValueWalker_u_possible ::
  "('v, 'r) value_walker \<Rightarrow> pworld \<Rightarrow> nat \<times> ('v, 'r) value_walker \<times> pworld" where
  "ValueWalker_u_possible this pw =
     (case possibleCached this of
        Some a \<Rightarrow> (a, this, pw)
      | None \<Rightarrow>
          (if matched this
           then (let (a, pw') = new_EventSet [] pw in (a, this\<lparr>possibleCached := Some a\<rparr>, pw'))
           else (let (ev, es) = Event_constructor [js ''text'', rawValue (el this)] (events pw);
                     (a, pw') = new_EventSet [ev] (pw\<lparr>events := es\<rparr>)
                 in (a, this\<lparr>possibleCached := Some a\<rparr>, pw'))))"

text \<open>
  \<open>Walker.possible()\<close> is \<open>new EventSet(this._possible())\<close>; the Empty walker overrides
  it with \<open>makeEventSet()\<close>. \<open>SingleSubwalker._possible()\<close> is
  \<open>this.subwalker.possible()\<close>.
\<close>

fun u_possible :: "('v, 'r) walker \<Rightarrow> pworld \<Rightarrow> nat \<times> ('v, 'r) walker \<times> pworld"
  and possible :: "('v, 'r) walker \<Rightarrow> pworld \<Rightarrow> nat \<times> ('v, 'r) walker \<times> pworld" where
  "u_possible (EmptyWalker w) pw =
     (let (a, w', pw') = EmptyWalker_u_possible w pw in (a, EmptyWalker w', pw'))"
| "u_possible (ValueWalker w) pw =
     (let (a, w', pw') = ValueWalker_u_possible w pw in (a, ValueWalker w', pw'))"
| "u_possible (DefineWalker b nr sub) pw =
     (let (a, sub', pw') = possible sub pw in (a, DefineWalker b nr sub', pw'))"
| "possible (EmptyWalker w) pw =
     (let (a, pw') = EmptyWalker_possible w pw in (a, EmptyWalker w, pw'))"
| "possible (ValueWalker w) pw =
     (let (a, w', pw') = u_possible (ValueWalker w) pw;
          (c, pw'') = new_EventSet (set_cells pw' a) pw'
      in (c, w', pw''))"
| "possible (DefineWalker b nr sub) pw =
     (let (a, w', pw') = u_possible (DefineWalker b nr sub) pw;
          (c, pw'') = new_EventSet (set_cells pw' a) pw'
      in (c, w', pw''))"

subsection \<open>Cloning\<close>

text \<open>
  The heap of name resolvers with the static counter \<open>Walker.__id\<close>; addresses from
  \<open>nr_next\<close> on are free.
\<close>

record 'r cworld =
  nr_cells :: "nat \<Rightarrow> 'r"
  nr_next :: nat
  next_walker_id :: nat





text \<open>The elements of a result \<open>Ref[] | undefined\<close>: none when it is \<open>undefined\<close>.\<close>

definition result_refs :: "'a list option \<Rightarrow> 'a list" where
  "result_refs r = (case r of None \<Rightarrow> [] | Some xs \<Rightarrow> xs)"

subsection \<open>The life of a Value walker\<close>

text \<open>
  A call of \<open>fireEvent\<close> returns a result or throws. \<open>fire_all\<close> fires a sequence of
  events on a Value walker; each event comes with the state the name resolvers have when
  it is fired. A call that throws leaves the walker as it was, and the caller may go on.
\<close>

datatype outcome = Returned fire_result | Threw error

fun fire_all ::
  "'r NameResolver_ops \<Rightarrow> ('v, 'r) value_walker \<Rightarrow> ((nat \<Rightarrow> 'r) \<times> jsstring \<times> jsstring list) list \<Rightarrow>
   outcome list \<times> ('v, 'r) value_walker" where
  "fire_all ops w [] = ([], w)"
| "fire_all ops w ((cells, name, ps) # evs) =
     (case ValueWalker_fireEvent ops cells w name ps of
        Inl e \<Rightarrow> (Threw e # fst (fire_all ops w evs), snd (fire_all ops w evs))
      | Inr (r, w') \<Rightarrow> (Returned r # fst (fire_all ops w' evs), snd (fire_all ops w' evs)))"

text \<open>
  What the getter \<open>value\<close> of a pattern gives: the value, or the exception it throws. An
  event is accepted by the walkers of a pattern \<open>v\<close> with context \<open>ctx\<close> when it is a text
  event whose value the datatype finds equal to the pattern's value. An event that is not
  accepted, fired on a walker that has not matched, returns \<open>NoMatch\<close>, or throws when it
  is a text event and the raw form does not parse.
\<close>

definition Value_value_result :: "'r NameResolver_ops \<Rightarrow> ('v, 'r) Value \<Rightarrow> error + 'v" where
  "Value_value_result ops this =
     (case Value_value ops this of Inl e \<Rightarrow> Inl e | Inr (r, this') \<Rightarrow> Inr r)"

definition accepts ::
  "'r NameResolver_ops \<Rightarrow> ('v, 'r) Value \<Rightarrow> nat option \<Rightarrow> (nat \<Rightarrow> 'r) \<times> jsstring \<times> jsstring list \<Rightarrow> bool" where
  "accepts ops v ctx ev =
     (case ev of (cells, name, ps) \<Rightarrow>
        name = js ''text'' \<and>
        (case Value_value_result ops v of
           Inl e \<Rightarrow> False
         | Inr val \<Rightarrow> equal (datatype_of v) (param0 ps) val (map_option cells ctx)))"

definition refused_outcome ::
  "'r NameResolver_ops \<Rightarrow> ('v, 'r) Value \<Rightarrow> (nat \<Rightarrow> 'r) \<times> jsstring \<times> jsstring list \<Rightarrow> outcome" where
  "refused_outcome ops v ev =
     (case ev of (cells, name, ps) \<Rightarrow>
        if name \<noteq> js ''text'' then Returned NoMatch
        else (case Value_value_result ops v of
                Inl e \<Rightarrow> Threw e
              | Inr val \<Rightarrow> Returned NoMatch))"

text \<open>
  Two notions for the proofs about a walker's life. The pattern a walker holds differs
  from the pattern \<open>v\<close> it was created for by the memo at most: it has the same raw form
  and datatype, and its getter gives the same result. A walker that has not matched
  keeps this, its context, and \<open>canEnd\<close> as the constructor set it.
\<close>

definition same_value :: "'r NameResolver_ops \<Rightarrow> ('v, 'r) Value \<Rightarrow> ('v, 'r) Value \<Rightarrow> bool" where
  "same_value ops v u \<longleftrightarrow>
     rawValue u = rawValue v \<and> datatype_of u = datatype_of v \<and>
     Value_value_result ops u = Value_value_result ops v"

definition unmatched_inv ::
  "'r NameResolver_ops \<Rightarrow> ('v, 'r) Value \<Rightarrow> nat option \<Rightarrow> ('v, 'r) value_walker \<Rightarrow> bool" where
  "unmatched_inv ops v ctx w \<longleftrightarrow>
     \<not> matched w \<and> same_value ops v (el w) \<and> context_obj w = ctx \<and>
     (canEnd w \<longleftrightarrow> rawValue v = js '''')"

section \<open>Datatypes and resolvers to evaluate the patterns on\<close>

text \<open>
  Modelled from the spec: the datatype library and the class \<open>NameResolver\<close>, whose
  modules are not part of the sources at hand. Three datatypes in the manner of the
  builtin ones: a string type (every lexical form is its own value), an integer type
  (\<open>parseValue\<close> throws unless the form is a nonempty run of digits) and a QName type,
  which needs a context: its value is the pair of a namespace URI and a local name,
  found by resolving the prefix (the default prefix \<open>""\<close> when the name has no colon) in
  the resolver of the context, and \<open>equal\<close> parses the text of the document under the
  context it is given and compares (``matches iff the incoming text, under the current
  walker's name resolver, compares equal per the datatype's equal''). A resolver's state
  is its map from prefixes to URIs.
\<close>

definition string_datatype :: "(jsstring, 'r) Datatype" where
  "string_datatype =
     \<lparr>needsContext = False,
      parseValue = (\<lambda>location raw ctx. Inr raw),
      equal = (\<lambda>v schemaValue ctx. v = Some schemaValue)\<rparr>"

definition integer_datatype :: "(jsstring, 'r) Datatype" where
  "integer_datatype =
     \<lparr>needsContext = False,
      parseValue = (\<lambda>location raw ctx.
         if raw \<noteq> [] \<and> list_all (\<lambda>c. 48 \<le> c \<and> c \<le> 57) raw then Inr raw
         else Inl (Error (js ''value is not an integer''))),
      equal = (\<lambda>v schemaValue ctx. v = Some schemaValue)\<rparr>"

definition resolveName :: "(jsstring \<rightharpoonup> jsstring) \<Rightarrow> jsstring \<Rightarrow> (jsstring \<times> jsstring) option" where
  "resolveName r q =
     (if 58 \<in> set q
      then (case r (takeWhile (\<lambda>c. c \<noteq> 58) q) of
              None \<Rightarrow> None
            | Some uri \<Rightarrow> Some (uri, tl (dropWhile (\<lambda>c. c \<noteq> 58) q)))
      else (case r (js '''') of None \<Rightarrow> None | Some uri \<Rightarrow> Some (uri, q)))"

definition qname_datatype :: "(jsstring \<times> jsstring, jsstring \<rightharpoonup> jsstring) Datatype" where
  "qname_datatype =
     \<lparr>needsContext = True,
      parseValue = (\<lambda>location raw ctx.
         case ctx of
           None \<Rightarrow> Inl TypeError
         | Some r \<Rightarrow>
             (case resolveName r raw of
                None \<Rightarrow> Inl (Error (js ''cannot resolve the name''))
              | Some v \<Rightarrow> Inr v)),
      equal = (\<lambda>v schemaValue ctx.
         case (v, ctx) of
           (Some s, Some r) \<Rightarrow> resolveName r s = Some schemaValue
         | _ \<Rightarrow> False)\<rparr>"

definition builtin_registry :: "(jsstring, 'r) registry" where
  "builtin_registry uri =
     (if uri = js ''''
      then Inr [js ''string'' \<mapsto> string_datatype, js ''integer'' \<mapsto> integer_datatype]
      else Inl (Error (js ''cannot get library with URI: '' @ uri)))"

definition qname_registry :: "(jsstring \<times> jsstring, jsstring \<rightharpoonup> jsstring) registry" where
  "qname_registry uri =
     (if uri = js '''' then Inr [js ''QName'' \<mapsto> qname_datatype]
      else Inl (Error (js ''cannot get library with URI: '' @ uri)))"

definition unit_ops :: "unit NameResolver_ops" where
  "unit_ops = \<lparr>nr_new = (), nr_definePrefix = (\<lambda>prefix uri r. ())\<rparr>"


text \<open>
  The pattern \<open>new Value("/v", "abc", "integer")\<close>, whose raw form is no integer, and
  the pattern \<open>new Value("/v", "12", "integer")\<close>.
\<close>

definition abc_integer :: "(jsstring, unit) Value" where
  "abc_integer =
     \<lparr>pattern_id = 0, xmlPath = js ''/v'', datatype_of = integer_datatype,
      rawValue = js ''abc'', type_name = js ''integer'', datatypeLibrary = js '''',
      ns = js '''', u_value_field = None\<rparr>"

definition twelve_integer :: "(jsstring, unit) Value" where
  "twelve_integer =
     \<lparr>pattern_id = 0, xmlPath = js ''/v'', datatype_of = integer_datatype,
      rawValue = js ''12'', type_name = js ''integer'', datatypeLibrary = js '''',
      ns = js '''', u_value_field = None\<rparr>"

text \<open>The pattern \<open>new Value("/v", "a", "string")\<close>.\<close>

definition a_string :: "(jsstring, unit) Value" where
  "a_string =
     \<lparr>pattern_id = 0, xmlPath = js ''/v'', datatype_of = string_datatype,
      rawValue = js ''a'', type_name = js ''string'', datatypeLibrary = js '''',
      ns = js '''', u_value_field = None\<rparr>"




definition a_walker :: "(jsstring, unit) walker" where
  "a_walker = ValueWalker (fst (ValueWalker_new a_string 5 1))"



text \<open>
  The addresses of the cached sets held in a tree of walkers, and the caller's change of
  the set object at an address to hold other events.
\<close>

fun cached_addrs :: "('v, 'r) walker \<Rightarrow> nat set" where
  "cached_addrs (EmptyWalker w) = set_option (possibleCached w)"
| "cached_addrs (ValueWalker w) = set_option (possibleCached w)"
| "cached_addrs (DefineWalker b nr sub) = set_option (possibleCached b) \<union> cached_addrs sub"

definition mutate_set :: "nat \<Rightarrow> event list \<Rightarrow> pworld \<Rightarrow> pworld" where
  "mutate_set a evs pw = pw\<lparr>set_cells := (set_cells pw)(a := evs)\<rparr>"

text \<open>The state of the heap of sets and of the class \<open>Event\<close> after the module is loaded.\<close>

definition pworld_init :: pworld where
  "pworld_init = \<lparr>set_cells = (\<lambda>a. []), set_next = 0, events = event_static_init\<rparr>"










text \<open>
  A memo is sound for a heap of resolvers when each entry maps an allocated resolver to
  an allocated resolver with the same state.
\<close>

definition memo_ok :: "(nat \<rightharpoonup> nat) \<Rightarrow> 'r cworld \<Rightarrow> bool" where
  "memo_ok memo cw \<longleftrightarrow>
     (\<forall>a a'. memo a = Some a' \<longrightarrow>
        a < nr_next cw \<and> a' < nr_next cw \<and> nr_cells cw a' = nr_cells cw a)"

section \<open>Event interning\<close>

lemma join_ab: "join [js ''a,b''] = join [js ''a'', js ''b'']"
  by (simp add: js_def)

lemma join_ab_key: "join [js ''a,b''] = js ''a,b''"
  by simp

lemma Event_constructor_same_key:
  assumes "join qs = join ps"
  shows "Event_constructor qs (snd (Event_constructor ps st)) = Event_constructor ps st"
  using assms by (cases "cache st (join ps)") (simp_all add: Event_constructor_def Let_def)

lemma Event_constructor_first_params:
  assumes "join qs = join ps" and "cache st (join ps) = None"
  shows "params (fst (Event_constructor qs (snd (Event_constructor ps st)))) = ps"
  using assms by (simp add: Event_constructor_def Let_def)

text \<open>
  C10. Interning is keyed by the comma-join of the parameters: the lists \<open>["a,b"]\<close> and
  \<open>["a", "b"]\<close> differ and have the same join, so from any state of the cache the second
  construction returns the object of the first and leaves the cache as it is; when the
  key was not cached before, that object carries the parameters of whichever list was
  constructed first.
\<close>

theorem Event_interning_collision:
  "[js ''a,b''] \<noteq> [js ''a'', js ''b''] \<and>
   join [js ''a,b''] = join [js ''a'', js ''b''] \<and>
   (\<forall>st. Event_constructor [js ''a'', js ''b''] (snd (Event_constructor [js ''a,b''] st))
           = Event_constructor [js ''a,b''] st) \<and>
   (\<forall>st. Event_constructor [js ''a,b''] (snd (Event_constructor [js ''a'', js ''b''] st))
           = Event_constructor [js ''a'', js ''b''] st) \<and>
   (\<forall>st. cache st (js ''a,b'') = None \<longrightarrow>
          params (fst (Event_constructor [js ''a'', js ''b'']
                        (snd (Event_constructor [js ''a,b''] st)))) = [js ''a,b''] \<and>
          params (fst (Event_constructor [js ''a,b'']
                        (snd (Event_constructor [js ''a'', js ''b''] st)))) = [js ''a'', js ''b''])"
proof (intro conjI allI impI)
  show "[js ''a,b''] \<noteq> [js ''a'', js ''b'']"
    by simp
  show "join [js ''a,b''] = join [js ''a'', js ''b'']"
    by (rule join_ab)
  show "Event_constructor [js ''a'', js ''b''] (snd (Event_constructor [js ''a,b''] st))
           = Event_constructor [js ''a,b''] st" for st
    by (rule Event_constructor_same_key) (rule join_ab [symmetric])
  show "Event_constructor [js ''a,b''] (snd (Event_constructor [js ''a'', js ''b''] st))
           = Event_constructor [js ''a'', js ''b''] st" for st
    by (rule Event_constructor_same_key) (rule join_ab)
  show "params (fst (Event_constructor [js ''a'', js ''b'']
                        (snd (Event_constructor [js ''a,b''] st)))) = [js ''a,b'']"
    if "cache st (js ''a,b'') = None" for st
    using that by (intro Event_constructor_first_params) (simp_all add: js_def)
  show "params (fst (Event_constructor [js ''a,b'']
                        (snd (Event_constructor [js ''a'', js ''b''] st)))) = [js ''a'', js ''b'']"
    if "cache st (js ''a,b'') = None" for st
    using that
    by (intro Event_constructor_first_params) (simp_all add: js_def)
qed

theorem Event_interning_collision_witness:
  "cache event_static_init (js ''a,b'') = None \<and>
   params (fst (Event_constructor [js ''a'', js ''b'']
                 (snd (Event_constructor [js ''a,b''] event_static_init)))) = [js ''a,b'']"
proof -
  have n: "cache event_static_init (js ''a,b'') = None"
    by (simp add: event_static_init_def Event_constructor_def Let_def js_def)
  from Event_interning_collision have
    "cache event_static_init (js ''a,b'') = None \<longrightarrow>
       params (fst (Event_constructor [js ''a'', js ''b'']
                     (snd (Event_constructor [js ''a,b''] event_static_init)))) = [js ''a,b''] \<and>
       params (fst (Event_constructor [js ''a,b'']
                     (snd (Event_constructor [js ''a'', js ''b''] event_static_init))))
         = [js ''a'', js ''b'']"
    by blast
  with n show ?thesis by blast
qed

section \<open>The Empty walker\<close>

lemma test_nonspace_undefined: "test_nonspace (js ''undefined'')"
  by (simp add: test_nonspace_def js_def isWhiteSpace_def)

lemma test_nonspace_iff: "\<not> test_nonspace v \<longleftrightarrow> (\<forall>c\<in>set v. isWhiteSpace c)"
  by (simp add: test_nonspace_def list_ex_iff)

text \<open>
  C2. On the Empty walker, \<open>fireEvent\<close> returns \<open>Ok\<close> exactly when the event is a text
  event whose value (its first parameter) has no character outside the whitespace class,
  the empty string included, and \<open>NoMatch\<close> for every other event; it never returns
  validation errors.
\<close>

theorem EmptyWalker_fireEvent_whitespace:
  "EmptyWalker_fireEvent name ps =
     (if name = js ''text'' \<and> (\<exists>v rest. ps = v # rest \<and> (\<forall>c\<in>set v. isWhiteSpace c))
      then Ok else NoMatch) \<and>
   (\<forall>es. EmptyWalker_fireEvent name ps \<noteq> Errors es) \<and>
   EmptyWalker_fireEvent (js ''text'') [ []] = Ok"
  by (cases ps)
     (simp_all add: EmptyWalker_fireEvent_def param0_toString_def test_nonspace_undefined
        test_nonspace_iff)

theorem EmptyWalker_fireEvent_whitespace_witness:
  "EmptyWalker_fireEvent (js ''text'') [ [32, 9, 10, 8195]] = Ok \<and>
   EmptyWalker_fireEvent (js ''text'') [js '' a''] = NoMatch \<and>
   EmptyWalker_fireEvent (js ''endTag'') [js '''', js ''foo''] = NoMatch"
  using EmptyWalker_fireEvent_whitespace [of "js ''text''" "[ [32, 9, 10, 8195]]"]
    EmptyWalker_fireEvent_whitespace [of "js ''text''" "[js '' a'']"]
    EmptyWalker_fireEvent_whitespace [of "js ''endTag''" "[js '''', js ''foo'']"]
  by (simp add: js_def isWhiteSpace_def)

section \<open>Resolution of references\<close>

lemma u_resolve_snd: "snd (u_resolve definitions p) = bind_refs definitions p"
  by (induction p) (simp_all add: Let_def case_prod_unfold split: option.splits)

lemma u_resolve_fst:
  "fst (u_resolve definitions p) = list_or_undefined (unresolved_refs definitions p)"
proof (induction p)
  case (TwoSubpatterns b patA patB)
  then show ?case
    by (auto simp: Let_def case_prod_unfold list_or_undefined_def unresolved_refs_def
          split: option.splits if_splits)
qed (simp_all add: Let_def case_prod_unfold list_or_undefined_def unresolved_refs_def)

lemma result_refs_list_or_undefined: "result_refs (list_or_undefined xs) = xs"
  by (simp add: result_refs_def list_or_undefined_def)

lemma unresolved_refs_Two:
  "unresolved_refs definitions (TwoSubpatterns b patA patB) =
     unresolved_refs definitions patA @ unresolved_refs definitions patB"
  by (simp add: unresolved_refs_def)

text \<open>
  C5. The resolution pass returns exactly the unresolved references. A \<open>Ref\<close> is bound
  to the definition of its name and the result is \<open>undefined\<close>, or, when the map has no
  such definition, the result is the list holding the \<open>Ref\<close> itself. A two-child
  pattern returns the concatenation of its children's unresolved references, and
  \<open>undefined\<close> when there are none. For every pattern the result lists the \<open>Ref\<close> nodes
  of the pattern's own tree whose name has no definition, in document order, and every
  \<open>Ref\<close> of the tree is bound to the map's entry for its name; the traversal reaches
  the children only and never follows \<open>resolvesTo\<close> into a definition.
\<close>

theorem resolve_returns_unresolved_refs:
  "u_resolve definitions (Ref b name resolvesTo) =
     (case definitions name of
        Some d \<Rightarrow> (None, Ref b name (Some d))
      | None \<Rightarrow> (Some [Ref b name None], Ref b name None)) \<and>
   fst (u_resolve definitions (TwoSubpatterns b patA patB)) =
     list_or_undefined (result_refs (fst (u_resolve definitions patA)) @
                        result_refs (fst (u_resolve definitions patB))) \<and>
   fst (u_resolve definitions p) = list_or_undefined (unresolved_refs definitions p) \<and>
   snd (u_resolve definitions p) = bind_refs definitions p \<and>
   refs (snd (u_resolve definitions p)) = refs p"
proof (intro conjI)
  show "u_resolve definitions (Ref b name resolvesTo) =
     (case definitions name of
        Some d \<Rightarrow> (None, Ref b name (Some d))
      | None \<Rightarrow> (Some [Ref b name None], Ref b name None))"
    by (simp add: Let_def split: option.splits)
  show "fst (u_resolve definitions (TwoSubpatterns b patA patB)) =
     list_or_undefined (result_refs (fst (u_resolve definitions patA)) @
                        result_refs (fst (u_resolve definitions patB)))"
    by (simp only: u_resolve_fst result_refs_list_or_undefined unresolved_refs_Two)
  show "fst (u_resolve definitions p) = list_or_undefined (unresolved_refs definitions p)"
    by (rule u_resolve_fst)
  show "snd (u_resolve definitions p) = bind_refs definitions p"
    by (rule u_resolve_snd)
  show "refs (snd (u_resolve definitions p)) = refs p"
    unfolding u_resolve_snd by (induction p) simp_all
qed


theorem resolve_returns_unresolved_refs_witness:
  "u_resolve [js ''a'' \<mapsto> 0]
     (TwoSubpatterns \<lparr>pattern_id = 2, xmlPath = js ''/g''\<rparr>
        (Ref \<lparr>pattern_id = 0, xmlPath = js ''/g/a''\<rparr> (js ''a'') None)
        (Ref \<lparr>pattern_id = 1, xmlPath = js ''/g/b''\<rparr> (js ''b'') None)
      :: (unit, unit) pattern) =
   (Some [Ref \<lparr>pattern_id = 1, xmlPath = js ''/g/b''\<rparr> (js ''b'') None],
    TwoSubpatterns \<lparr>pattern_id = 2, xmlPath = js ''/g''\<rparr>
        (Ref \<lparr>pattern_id = 0, xmlPath = js ''/g/a''\<rparr> (js ''a'') (Some 0))
        (Ref \<lparr>pattern_id = 1, xmlPath = js ''/g/b''\<rparr> (js ''b'') None))"
proof -
  let ?d = "[js ''a'' \<mapsto> (0::nat)]"
  let ?p = "TwoSubpatterns \<lparr>pattern_id = 2, xmlPath = js ''/g''\<rparr>
        (Ref \<lparr>pattern_id = 0, xmlPath = js ''/g/a''\<rparr> (js ''a'') None)
        (Ref \<lparr>pattern_id = 1, xmlPath = js ''/g/b''\<rparr> (js ''b'') None)
      :: (unit, unit) pattern"
  note r = resolve_returns_unresolved_refs [where definitions = ?d and p = ?p]
  have f: "fst (u_resolve ?d ?p) = list_or_undefined (unresolved_refs ?d ?p)"
    by (rule r [THEN conjunct2, THEN conjunct2, THEN conjunct1])
  have s: "snd (u_resolve ?d ?p) = bind_refs ?d ?p"
    by (rule r [THEN conjunct2, THEN conjunct2, THEN conjunct2, THEN conjunct1])
  have "list_or_undefined (unresolved_refs ?d ?p) =
          Some [Ref \<lparr>pattern_id = 1, xmlPath = js ''/g/b''\<rparr> (js ''b'') None]"
    by (simp add: list_or_undefined_def unresolved_refs_def js_def)
  moreover have "bind_refs ?d ?p =
      TwoSubpatterns \<lparr>pattern_id = 2, xmlPath = js ''/g''\<rparr>
        (Ref \<lparr>pattern_id = 0, xmlPath = js ''/g/a''\<rparr> (js ''a'') (Some 0))
        (Ref \<lparr>pattern_id = 1, xmlPath = js ''/g/b''\<rparr> (js ''b'') None)"
    by (simp add: js_def)
  ultimately show ?thesis
    by (simp only: prod_eq_iff f s fst_conv snd_conv simp_thms)
qed

section \<open>The Value pattern\<close>

lemma Value_constructor_abc:
  "Value_constructor builtin_registry (js ''/v'') (js ''abc'') (Some (js ''integer'')) None None 0
     = (Inr abc_integer, 1)"
  by (simp add: Value_constructor_def BasePattern_constructor_def builtin_registry_def
        abc_integer_def js_def)

lemma Value_value_abc:
  "Value_value unit_ops abc_integer = Inl (Error (js ''value is not an integer''))"
  by (simp add: Value_value_def abc_integer_def integer_datatype_def js_def)

text \<open>
  The claim C3 fails as stated: the constructor of \<open>Value("/v", "abc", "integer")\<close>
  returns a pattern whose \<open>_value\<close> is unset, although \<open>abc\<close> is no integer; the error
  is thrown by the getter, here when a walker created for the pattern handles its first
  text event.
\<close>

theorem Value_constructor_parses_counterexample:
  "Value_constructor builtin_registry (js ''/v'') (js ''abc'') (Some (js ''integer'')) None None 0
     = (Inr abc_integer, 1) \<and>
   u_value_field abc_integer = None \<and>
   Value_value unit_ops abc_integer = Inl (Error (js ''value is not an integer'')) \<and>
   ValueWalker_fireEvent unit_ops (\<lambda>a. ()) (fst (ValueWalker_new abc_integer 0 0))
       (js ''text'') [js ''5'']
     = Inl (Error (js ''value is not an integer''))"
proof -
  have "ValueWalker_fireEvent unit_ops (\<lambda>a. ()) (fst (ValueWalker_new abc_integer 0 0))
       (js ''text'') [js ''5'']
     = Inl (Error (js ''value is not an integer''))"
    by (simp add: ValueWalker_fireEvent_def ValueWalker_new_def Walker_constructor_def
          Value_value_abc)
  then show ?thesis
    by (simp add: Value_constructor_abc Value_value_abc) (simp add: abc_integer_def)
qed

text \<open>
  C3, amended. The constructor of a Value pattern looks the datatype up (an unknown
  library or type throws) and stores the raw form; it leaves \<open>_value\<close> unset and succeeds
  or fails whatever the raw form is. The raw form is parsed by the first read of the
  getter \<open>value\<close>, by \<open>datatype.parseValue\<close> on the pattern's path and raw form, with a
  new name resolver whose default prefix is bound to the declared namespace when the
  datatype needs a context and with no context otherwise; an exception of \<open>parseValue\<close>
  is thrown by that read, and a parsed value is memoised, so later reads return it.
\<close>

theorem Value_parses_on_first_access:
  "(\<forall>v n. Value_constructor registry path val ty lib nsa i = (Inr v, n) \<longrightarrow>
      u_value_field v = None \<and> rawValue v = val \<and>
      ns v = (case nsa of None \<Rightarrow> js '''' | Some x \<Rightarrow> x) \<and>
      (\<exists>types. registry (case lib of None \<Rightarrow> js '''' | Some l \<Rightarrow> l) = Inr types \<and>
         types (case ty of None \<Rightarrow> js ''token'' | Some t \<Rightarrow> t) = Some (datatype_of v))) \<and>
   (isl (fst (Value_constructor registry path val ty lib nsa i)) \<longleftrightarrow>
    isl (fst (Value_constructor registry path val' ty lib nsa i))) \<and>
   (u_value_field this = None \<longrightarrow>
      Value_value ops this =
        (case parseValue (datatype_of this) (xmlPath this) (rawValue this)
                (if needsContext (datatype_of this)
                 then Some (nr_definePrefix ops (js '''') (ns this) (nr_new ops)) else None) of
           Inl e \<Rightarrow> Inl e
         | Inr r \<Rightarrow> Inr (r, this\<lparr>u_value_field := Some r\<rparr>))) \<and>
   (\<forall>r this'. Value_value ops this = Inr (r, this') \<longrightarrow> Value_value ops this' = Inr (r, this'))"
proof (intro conjI allI impI)
  fix v n
  assume c: "Value_constructor registry path val ty lib nsa i = (Inr v, n)"
  then show "u_value_field v = None" "rawValue v = val"
    "ns v = (case nsa of None \<Rightarrow> js '''' | Some x \<Rightarrow> x)"
    by (auto simp: Value_constructor_def BasePattern_constructor_def Let_def
          split: sum.splits option.splits)
  from c show "\<exists>types. registry (case lib of None \<Rightarrow> js '''' | Some l \<Rightarrow> l) = Inr types \<and>
         types (case ty of None \<Rightarrow> js ''token'' | Some t \<Rightarrow> t) = Some (datatype_of v)"
    by (auto simp: Value_constructor_def BasePattern_constructor_def Let_def
          split: sum.splits option.splits)
next
  show "isl (fst (Value_constructor registry path val ty lib nsa i)) \<longleftrightarrow>
    isl (fst (Value_constructor registry path val' ty lib nsa i))"
    by (simp add: Value_constructor_def BasePattern_constructor_def Let_def
          split: sum.splits option.splits)
next
  assume "u_value_field this = None"
  then show "Value_value ops this =
        (case parseValue (datatype_of this) (xmlPath this) (rawValue this)
                (if needsContext (datatype_of this)
                 then Some (nr_definePrefix ops (js '''') (ns this) (nr_new ops)) else None) of
           Inl e \<Rightarrow> Inl e
         | Inr r \<Rightarrow> Inr (r, this\<lparr>u_value_field := Some r\<rparr>))"
    by (simp add: Value_value_def Let_def)
next
  fix r this'
  assume "Value_value ops this = Inr (r, this')"
  then show "Value_value ops this' = Inr (r, this')"
    by (auto simp: Value_value_def Let_def split: option.splits sum.splits)
qed

theorem Value_parses_on_first_access_witness:
  "Value_constructor builtin_registry (js ''/v'') (js ''12'') (Some (js ''integer'')) None None 0
     = (Inr twelve_integer, 1) \<and>
   u_value_field twelve_integer = None \<and>
   Value_value unit_ops twelve_integer
     = Inr (js ''12'', twelve_integer\<lparr>u_value_field := Some (js ''12'')\<rparr>) \<and>
   Value_value unit_ops (twelve_integer\<lparr>u_value_field := Some (js ''12'')\<rparr>)
     = Inr (js ''12'', twelve_integer\<lparr>u_value_field := Some (js ''12'')\<rparr>)"
proof -
  note t = Value_parses_on_first_access [where registry = builtin_registry and path = "js ''/v''"
      and val = "js ''12''" and ty = "Some (js ''integer'')" and lib = None and nsa = None
      and i = 0 and this = twelve_integer and ops = unit_ops]
  have c: "Value_constructor builtin_registry (js ''/v'') (js ''12'') (Some (js ''integer''))
             None None 0 = (Inr twelve_integer, 1)"
    by (simp add: Value_constructor_def BasePattern_constructor_def builtin_registry_def
          twelve_integer_def js_def)
  with t have n: "u_value_field twelve_integer = None"
    by blast
  with t have "Value_value unit_ops twelve_integer =
        (case parseValue (datatype_of twelve_integer) (xmlPath twelve_integer)
                (rawValue twelve_integer)
                (if needsContext (datatype_of twelve_integer)
                 then Some (nr_definePrefix unit_ops (js '''') (ns twelve_integer) (nr_new unit_ops))
                 else None) of
           Inl e \<Rightarrow> Inl e
         | Inr r \<Rightarrow> Inr (r, twelve_integer\<lparr>u_value_field := Some r\<rparr>))"
    by blast
  then have v: "Value_value unit_ops twelve_integer
     = Inr (js ''12'', twelve_integer\<lparr>u_value_field := Some (js ''12'')\<rparr>)"
    by (simp add: twelve_integer_def integer_datatype_def js_def)
  with t have "Value_value unit_ops (twelve_integer\<lparr>u_value_field := Some (js ''12'')\<rparr>)
     = Inr (js ''12'', twelve_integer\<lparr>u_value_field := Some (js ''12'')\<rparr>)"
    by blast
  with c n v show ?thesis by blast
qed

section \<open>The Value walker\<close>

lemma same_value_refl: "same_value ops v v"
  by (simp add: same_value_def)

lemma Value_value_same:
  assumes "Value_value ops u = Inr (val, u')"
  shows "rawValue u' = rawValue u" "datatype_of u' = datatype_of u"
    "Value_value_result ops u' = Value_value_result ops u"
    "Value_value_result ops u = Inr val"
  using assms
  by (auto simp: Value_value_def Value_value_result_def Let_def split: option.splits sum.splits)

lemma Value_value_throws:
  assumes "Value_value ops u = Inl e"
  shows "Value_value_result ops u = Inl e"
  using assms by (simp add: Value_value_result_def)

lemma fire_matched:
  "matched w \<Longrightarrow> ValueWalker_fireEvent ops cells w name ps = Inr (NoMatch, w)"
  by (simp add: ValueWalker_fireEvent_def)

lemma fire_all_matched:
  "matched w \<Longrightarrow> fire_all ops w evs = (replicate (length evs) (Returned NoMatch), w)"
  by (induction evs) (auto simp: fire_matched)

lemma fire_accepted:
  assumes "unmatched_inv ops v ctx w" and "accepts ops v ctx (cells, name, ps)"
  shows "\<exists>w'. ValueWalker_fireEvent ops cells w name ps = Inr (Ok, w') \<and> matched w' \<and> canEnd w' \<and>
           rawValue (el w') = rawValue v"
proof -
  from assms have n: "name = js ''text''" and m: "\<not> matched w" and c: "context_obj w = ctx"
    and sv: "same_value ops v (el w)"
    by (auto simp: unmatched_inv_def accepts_def)
  from assms(2) obtain val where r: "Value_value_result ops v = Inr val"
    and e: "equal (datatype_of v) (param0 ps) val (map_option cells ctx)"
    by (auto simp: accepts_def split: sum.splits)
  from sv r have "Value_value_result ops (el w) = Inr val"
    by (simp add: same_value_def)
  then obtain u' where u: "Value_value ops (el w) = Inr (val, u')"
    by (auto simp: Value_value_result_def split: sum.splits)
  from sv have d: "datatype_of (el w) = datatype_of v" and rw: "rawValue (el w) = rawValue v"
    by (simp_all add: same_value_def)
  from Value_value_same(1) [OF u] rw have "rawValue u' = rawValue v" by simp
  with n m c u e d show ?thesis
    by (simp add: ValueWalker_fireEvent_def)
qed

lemma fire_refused:
  assumes "unmatched_inv ops v ctx w" and "\<not> accepts ops v ctx (cells, name, ps)"
  shows "(\<exists>e. ValueWalker_fireEvent ops cells w name ps = Inl e \<and>
              refused_outcome ops v (cells, name, ps) = Threw e) \<or>
         (\<exists>w'. ValueWalker_fireEvent ops cells w name ps = Inr (NoMatch, w') \<and>
              refused_outcome ops v (cells, name, ps) = Returned NoMatch \<and>
              unmatched_inv ops v ctx w')"
proof (cases "name = js ''text''")
  case False
  with assms(1) show ?thesis
    by (simp add: ValueWalker_fireEvent_def refused_outcome_def unmatched_inv_def)
next
  case True
  from assms(1) have m: "\<not> matched w" and c: "context_obj w = ctx"
    and sv: "same_value ops v (el w)" and ce: "canEnd w \<longleftrightarrow> rawValue v = js ''''"
    by (auto simp: unmatched_inv_def)
  from sv have d: "datatype_of (el w) = datatype_of v" and rw: "rawValue (el w) = rawValue v"
    and vr: "Value_value_result ops (el w) = Value_value_result ops v"
    by (simp_all add: same_value_def)
  show ?thesis
  proof (cases "Value_value ops (el w)")
    case (Inl e)
    with vr have "Value_value_result ops v = Inl e"
      by (simp add: Value_value_result_def)
    with Inl True m show ?thesis
      by (simp add: ValueWalker_fireEvent_def refused_outcome_def)
  next
    case (Inr p)
    obtain val u' where p: "p = (val, u')" by (cases p)
    with Inr have u: "Value_value ops (el w) = Inr (val, u')" by simp
    from Value_value_same [OF u] vr have r: "Value_value_result ops v = Inr val"
      and s': "same_value ops v u'"
      using d rw by (simp_all add: same_value_def)
    from assms(2) True r have ne: "\<not> equal (datatype_of v) (param0 ps) val (map_option cells ctx)"
      by (simp add: accepts_def)
    with True m c u d r s' ce show ?thesis
      by (simp add: ValueWalker_fireEvent_def refused_outcome_def unmatched_inv_def)
  qed
qed

lemma fire_all_unmatched:
  assumes "unmatched_inv ops v ctx w"
  shows "fst (fire_all ops w evs) =
           map (refused_outcome ops v) (takeWhile (\<lambda>e. \<not> accepts ops v ctx e) evs) @
           (case dropWhile (\<lambda>e. \<not> accepts ops v ctx e) evs of
              [] \<Rightarrow> []
            | e # rest \<Rightarrow> Returned Ok # replicate (length rest) (Returned NoMatch)) \<and>
         (canEnd (snd (fire_all ops w evs)) \<longleftrightarrow>
            (\<exists>e\<in>set evs. accepts ops v ctx e) \<or> rawValue v = js '''') \<and>
         rawValue (el (snd (fire_all ops w evs))) = rawValue v"
  using assms
proof (induction evs arbitrary: w)
  case Nil
  then show ?case by (simp add: unmatched_inv_def same_value_def)
next
  case (Cons ev evs)
  obtain cells name ps where ev: "ev = (cells, name, ps)" by (cases ev)
  show ?case
  proof (cases "accepts ops v ctx ev")
    case True
    with fire_accepted [OF Cons.prems] ev obtain w'
      where f: "ValueWalker_fireEvent ops cells w name ps = Inr (Ok, w')"
        and m: "matched w'" and c: "canEnd w'" and r: "rawValue (el w') = rawValue v"
      by blast
    from True ev f m c r show ?thesis
      by (simp add: fire_all_matched)
  next
    case False
    with fire_refused [OF Cons.prems] ev consider
      (threw) e where "ValueWalker_fireEvent ops cells w name ps = Inl e"
        "refused_outcome ops v ev = Threw e"
      | (nomatch) w' where "ValueWalker_fireEvent ops cells w name ps = Inr (NoMatch, w')"
        "refused_outcome ops v ev = Returned NoMatch" "unmatched_inv ops v ctx w'"
      by blast
    then show ?thesis
    proof cases
      case threw
      with False ev Cons.IH [OF Cons.prems] show ?thesis by simp
    next
      case nomatch
      with False ev Cons.IH [OF nomatch(3)] show ?thesis by simp
    qed
  qed
qed

lemma refused_outcome_not_Ok: "refused_outcome ops v ev \<noteq> Returned Ok"
  by (auto simp: refused_outcome_def split: prod.splits sum.splits)

lemma refused_outcome_not_Errors: "refused_outcome ops v ev \<noteq> Returned (Errors es)"
  by (auto simp: refused_outcome_def split: prod.splits sum.splits)

lemma ValueWalker_new_inv:
  "unmatched_inv ops v (if needsContext (datatype_of v) then Some resolver else None)
     (fst (ValueWalker_new v resolver i))"
  by (simp add: unmatched_inv_def ValueWalker_new_def Walker_constructor_def same_value_def
        Value_hasEmptyPattern_def)


lemma single_Ok_split:
  assumes "Returned Ok \<notin> set xs"
    and "xs @ Returned Ok # replicate n (Returned NoMatch) = pre @ Returned Ok # post"
  shows "post = replicate n (Returned NoMatch)"
proof -
  have "Returned Ok \<notin> set (replicate n (Returned NoMatch))" by simp
  with assms show ?thesis
    by (simp add: append_Cons_eq_iff)
qed

text \<open>
  C4. A Value walker is single-shot. Fired on a new walker, a sequence of events gives
  \<open>Ok\<close> exactly once, at the first text event whose value the datatype finds equal to
  the stored value, if there is one; the events before it give \<open>NoMatch\<close> (or an exception
  of \<open>parseValue\<close>) and every event after it gives \<open>NoMatch\<close>; no event gives validation
  errors. At the end \<open>canEnd\<close> is true exactly when the match has occurred or the raw form
  is the empty string, and \<open>end()\<close> returns \<open>false\<close> when \<open>canEnd\<close> is true and the list of
  one error \<open>value required: <raw form>\<close> when it is false.
\<close>

theorem ValueWalker_single_shot:
  "(let w0 = fst (ValueWalker_new v resolver i);
        ctx = context_obj w0;
        os = fst (fire_all ops w0 evs);
        w = snd (fire_all ops w0 evs)
    in os = map (refused_outcome ops v) (takeWhile (\<lambda>e. \<not> accepts ops v ctx e) evs) @
            (case dropWhile (\<lambda>e. \<not> accepts ops v ctx e) evs of
               [] \<Rightarrow> []
             | e # rest \<Rightarrow> Returned Ok # replicate (length rest) (Returned NoMatch)) \<and>
       (\<forall>e. refused_outcome ops v e \<noteq> Returned Ok) \<and>
       length (filter (\<lambda>x. x = Returned Ok) os) \<le> 1 \<and>
       (\<forall>pre post. os = pre @ Returned Ok # post \<longrightarrow> (\<forall>x\<in>set post. x = Returned NoMatch)) \<and>
       (\<forall>es. Returned (Errors es) \<notin> set os) \<and>
       (canEnd w \<longleftrightarrow> Returned Ok \<in> set os \<or> rawValue v = js '''') \<and>
       ValueWalker_end w attribute =
         (if canEnd w then EndOk
          else EndErrors [ValidationError (js ''value required: '' @ rawValue v)]))"
proof -
  let ?init = "fst (ValueWalker_new v resolver i)"
  let ?os = "fst (fire_all ops ?init evs)"
  let ?fin = "snd (fire_all ops ?init evs)"
  define ctx where "ctx = context_obj ?init"
  define quiet where
    "quiet = map (refused_outcome ops v) (takeWhile (\<lambda>e. \<not> accepts ops v ctx e) evs)"
  define loud where
    "loud = (case dropWhile (\<lambda>e. \<not> accepts ops v ctx e) evs of
               [] \<Rightarrow> []
             | e # rest \<Rightarrow> Returned Ok # replicate (length rest) (Returned NoMatch))"
  have c: "ctx = (if needsContext (datatype_of v) then Some resolver else None)"
    by (simp add: ctx_def ValueWalker_new_def Walker_constructor_def)
  have inv: "unmatched_inv ops v ctx ?init"
    unfolding c by (rule ValueWalker_new_inv)
  note run = fire_all_unmatched [OF inv, of evs]
  have os: "?os = quiet @ loud"
    unfolding quiet_def loud_def using run by blast
  have q1: "Returned Ok \<notin> set quiet"
    by (auto simp: quiet_def refused_outcome_not_Ok [symmetric])
  have q2: "Returned (Errors es) \<notin> set quiet" for es
    by (auto simp: quiet_def refused_outcome_not_Errors [symmetric])
  have l: "loud = [] \<and> (\<forall>e\<in>set evs. \<not> accepts ops v ctx e) \<or>
           (\<exists>n. loud = Returned Ok # replicate n (Returned NoMatch)) \<and>
             (\<exists>e\<in>set evs. accepts ops v ctx e)"
  proof (cases "dropWhile (\<lambda>e. \<not> accepts ops v ctx e) evs")
    case Nil
    then have "\<forall>e\<in>set evs. \<not> accepts ops v ctx e"
      by (simp add: dropWhile_eq_Nil_conv)
    moreover have "loud = []"
      unfolding loud_def Nil by simp
    ultimately show ?thesis by blast
  next
    case (Cons e rest)
    then have "e \<in> set evs" "accepts ops v ctx e"
      using set_dropWhileD [of e "\<lambda>e. \<not> accepts ops v ctx e" evs]
        hd_dropWhile [of "\<lambda>e. \<not> accepts ops v ctx e" evs]
      by auto
    moreover have "loud = Returned Ok # replicate (length rest) (Returned NoMatch)"
      unfolding loud_def Cons by simp
    ultimately show ?thesis by blast
  qed
  have once: "length (filter (\<lambda>x. x = Returned Ok) ?os) \<le> 1"
  proof -
    have "filter (\<lambda>x. x = Returned Ok) quiet = []"
      using q1 by (auto simp: filter_empty_conv)
    moreover have "length (filter (\<lambda>x. x = Returned Ok) loud) \<le> 1"
      using l by (elim disjE conjE exE) simp_all
    ultimately show ?thesis
      unfolding os by simp
  qed
  have after: "\<forall>x\<in>set post. x = Returned NoMatch" if p: "?os = pre @ Returned Ok # post" for pre post
  proof -
    from p have "Returned Ok \<in> set ?os" by simp
    with q1 have "Returned Ok \<in> set loud" unfolding os by simp
    then have "loud \<noteq> []" by auto
    with l obtain n where n: "loud = Returned Ok # replicate n (Returned NoMatch)" by blast
    from p have "quiet @ loud = pre @ Returned Ok # post"
      unfolding os .
    then have "quiet @ Returned Ok # replicate n (Returned NoMatch) = pre @ Returned Ok # post"
      unfolding n .
    from single_Ok_split [OF q1 this] show ?thesis by simp
  qed
  have noerr: "Returned (Errors es) \<notin> set ?os" for es
  proof -
    have "Returned (Errors es) \<notin> set loud"
      using l by (elim disjE conjE exE) simp_all
    with q2 [of es] show ?thesis unfolding os by simp
  qed
  have inloud: "Returned Ok \<in> set loud \<longleftrightarrow> (\<exists>e\<in>set evs. accepts ops v ctx e)"
    using l by (elim disjE conjE exE) simp_all
  have ce: "canEnd ?fin \<longleftrightarrow> Returned Ok \<in> set ?os \<or> rawValue v = js ''''"
  proof -
    have "Returned Ok \<in> set ?os \<longleftrightarrow> (\<exists>e\<in>set evs. accepts ops v ctx e)"
      using q1 inloud unfolding os by simp
    with run show ?thesis by blast
  qed
  have raw: "rawValue (el ?fin) = rawValue v"
    using run by blast
  have e: "ValueWalker_end ?fin attribute =
         (if canEnd ?fin then EndOk
          else EndErrors [ValidationError (js ''value required: '' @ rawValue v)])"
    by (simp add: ValueWalker_end_def raw)
  show ?thesis
    unfolding Let_def
  proof (intro conjI allI impI)
    show "?os = map (refused_outcome ops v)
                  (takeWhile (\<lambda>e. \<not> accepts ops v (context_obj ?init) e) evs) @
            (case dropWhile (\<lambda>e. \<not> accepts ops v (context_obj ?init) e) evs of
               [] \<Rightarrow> []
             | e # rest \<Rightarrow> Returned Ok # replicate (length rest) (Returned NoMatch))"
      using os unfolding quiet_def loud_def ctx_def .
    show "refused_outcome ops v e \<noteq> Returned Ok" for e by (rule refused_outcome_not_Ok)
    show "length (filter (\<lambda>x. x = Returned Ok) ?os) \<le> 1" by (rule once)
    show "\<forall>x\<in>set post. x = Returned NoMatch" if "?os = pre @ Returned Ok # post" for pre post
      using that by (rule after)
    show "Returned (Errors es) \<notin> set ?os" for es by (rule noerr)
    show "canEnd ?fin \<longleftrightarrow> Returned Ok \<in> set ?os \<or> rawValue v = js ''''" by (rule ce)
    show "ValueWalker_end ?fin attribute =
         (if canEnd ?fin then EndOk
          else EndErrors [ValidationError (js ''value required: '' @ rawValue v)])" by (rule e)
  qed
qed

theorem ValueWalker_single_shot_witness:
  "fst (fire_all unit_ops (fst (ValueWalker_new a_string 0 0))
         [(\<lambda>a. (), js ''text'', [js ''b'']), (\<lambda>a. (), js ''endTag'', [js '''', js ''e'']),
          (\<lambda>a. (), js ''text'', [js ''a'']), (\<lambda>a. (), js ''text'', [js ''a''])])
     = [Returned NoMatch, Returned NoMatch, Returned Ok, Returned NoMatch] \<and>
   canEnd (snd (fire_all unit_ops (fst (ValueWalker_new a_string 0 0))
         [(\<lambda>a. (), js ''text'', [js ''b'']), (\<lambda>a. (), js ''endTag'', [js '''', js ''e'']),
          (\<lambda>a. (), js ''text'', [js ''a'']), (\<lambda>a. (), js ''text'', [js ''a''])])) \<and>
   ValueWalker_end (fst (ValueWalker_new a_string 0 0)) False
     = EndErrors [ValidationError (js ''value required: a'')]"
proof -
  let ?evs = "[(\<lambda>a. (), js ''text'', [js ''b'']), (\<lambda>a. (), js ''endTag'', [js '''', js ''e'']),
          (\<lambda>a. (), js ''text'', [js ''a'']), (\<lambda>a. (), js ''text'', [js ''a''])]
          :: ((nat \<Rightarrow> unit) \<times> jsstring \<times> jsstring list) list"
  let ?init = "fst (ValueWalker_new a_string 0 0)"
  have r: "Value_value_result unit_ops a_string = Inr (js ''a'')"
    by (simp add: Value_value_result_def Value_value_def a_string_def string_datatype_def)
  have d: "datatype_of a_string = string_datatype" "rawValue a_string = js ''a''"
    by (simp_all add: a_string_def)
  have c: "context_obj ?init = None"
    by (simp add: ValueWalker_new_def Walker_constructor_def d string_datatype_def)
  have a: "accepts unit_ops a_string None (cells, name, ps) \<longleftrightarrow>
             name = js ''text'' \<and> param0 ps = Some (js ''a'')" for cells name ps
    by (simp add: accepts_def r d string_datatype_def)
  have q: "refused_outcome unit_ops a_string (cells, name, ps) = Returned NoMatch" for cells name ps
    by (simp add: refused_outcome_def r)
  have ne: "js ''b'' \<noteq> js ''a''" "js ''endTag'' \<noteq> js ''text''" "js ''a'' \<noteq> js ''''"
    by (simp_all add: js_def)
  note t = ValueWalker_single_shot [of a_string 0 0 unit_ops ?evs False, unfolded Let_def c]
  note t0 = ValueWalker_single_shot [of a_string 0 0 unit_ops "[]" False, unfolded Let_def c]
  have tw: "takeWhile (\<lambda>e. \<not> accepts unit_ops a_string None e) ?evs =
              [(\<lambda>a. (), js ''text'', [js ''b'']), (\<lambda>a. (), js ''endTag'', [js '''', js ''e''])]"
    by (simp add: a ne param0_def)
  have dw: "dropWhile (\<lambda>e. \<not> accepts unit_ops a_string None e) ?evs =
              [(\<lambda>a. (), js ''text'', [js ''a'']), (\<lambda>a. (), js ''text'', [js ''a''])]"
    by (simp add: a ne param0_def)
  have os: "fst (fire_all unit_ops ?init ?evs) =
              [Returned NoMatch, Returned NoMatch, Returned Ok, Returned NoMatch]"
    using t [THEN conjunct1] unfolding tw dw by (simp add: q)
  have "canEnd (snd (fire_all unit_ops ?init ?evs)) \<longleftrightarrow>
          Returned Ok \<in> set (fst (fire_all unit_ops ?init ?evs)) \<or> rawValue a_string = js ''''"
    using t by blast
  then have ce: "canEnd (snd (fire_all unit_ops ?init ?evs))"
    unfolding os by simp
  have "canEnd (snd (fire_all unit_ops ?init [])) \<longleftrightarrow>
          Returned Ok \<in> set (fst (fire_all unit_ops ?init [])) \<or> rawValue a_string = js ''''"
    using t0 by blast
  then have nce: "\<not> canEnd ?init"
    by (simp add: d ne)
  have "ValueWalker_end (snd (fire_all unit_ops ?init [])) False =
         (if canEnd (snd (fire_all unit_ops ?init [])) then EndOk
          else EndErrors [ValidationError (js ''value required: '' @ rawValue a_string)])"
    using t0 by blast
  with nce have "ValueWalker_end ?init False = EndErrors [ValidationError (js ''value required: a'')]"
    by (simp add: d js_def)
  with os ce show ?thesis by blast
qed

section \<open>Creating walkers\<close>














section \<open>Cloning through a memo\<close>




lemma a_walker_eval:
  "a_walker = ValueWalker \<lparr>walker_id = 1, el = a_string, possibleCached = None,
      suppressedAttributes = False, canEnd = False, canEndAttribute = False,
      matched = False, context_obj = None, nameResolver = 5\<rparr>"
  by (simp add: a_walker_def ValueWalker_new_def Walker_constructor_def Value_hasEmptyPattern_def)
     (simp add: a_string_def string_datatype_def js_def)








section \<open>Possibility sets are fresh\<close>

lemma new_EventSet_facts:
  "fst (new_EventSet evs pw) = set_next pw"
  "set_next (snd (new_EventSet evs pw)) = Suc (set_next pw)"
  "set_cells (snd (new_EventSet evs pw)) = (set_cells pw)(set_next pw := evs)"
  "events (snd (new_EventSet evs pw)) = events pw"
  by (simp_all add: new_EventSet_def)

lemma new_EventSet_mutate:
  assumes "x < set_next pw"
  shows "new_EventSet es (mutate_set x evs pw) =
           (fst (new_EventSet es pw), mutate_set x evs (snd (new_EventSet es pw)))"
proof -
  from assms have "x \<noteq> set_next pw" by simp
  then show ?thesis
    by (simp add: new_EventSet_def mutate_set_def fun_upd_twist)
qed

lemma mutate_set_facts:
  "set_next (mutate_set x evs pw) = set_next pw"
  "events (mutate_set x evs pw) = events pw"
  "a \<noteq> x \<Longrightarrow> set_cells (mutate_set x evs pw) a = set_cells pw a"
  "mutate_set x evs (pw\<lparr>events := es\<rparr>) = (mutate_set x evs pw)\<lparr>events := es\<rparr>"
  by (simp_all add: mutate_set_def)

lemma EmptyWalker_u_possible_alloc:
  assumes "\<forall>x\<in>set_option (possibleCached w). x < set_next pw"
    and "EmptyWalker_u_possible w pw = (a, w', pw')"
  shows "set_next pw \<le> set_next pw'" "a < set_next pw'"
    "\<forall>b<set_next pw. set_cells pw' b = set_cells pw b"
    "possibleCached w' = Some a"
  using assms
  by (auto simp: EmptyWalker_u_possible_def new_EventSet_def split: option.splits)

lemma ValueWalker_u_possible_alloc:
  assumes "\<forall>x\<in>set_option (possibleCached w). x < set_next pw"
    and "ValueWalker_u_possible w pw = (a, w', pw')"
  shows "set_next pw \<le> set_next pw'" "a < set_next pw'"
    "\<forall>b<set_next pw. set_cells pw' b = set_cells pw b"
    "possibleCached w' = Some a"
  using assms
  by (auto simp: ValueWalker_u_possible_def new_EventSet_def case_prod_unfold Let_def
        split: option.splits if_splits)

lemma possible_alloc:
  assumes "\<forall>x\<in>cached_addrs w. x < set_next pw"
  shows "(\<forall>a w' pw'. u_possible w pw = (a, w', pw') \<longrightarrow>
            set_next pw \<le> set_next pw' \<and> a < set_next pw' \<and>
            (\<forall>b<set_next pw. set_cells pw' b = set_cells pw b) \<and>
            (\<forall>x\<in>cached_addrs w'. x < set_next pw')) \<and>
         (\<forall>a w' pw'. possible w pw = (a, w', pw') \<longrightarrow>
            set_next pw \<le> a \<and> a < set_next pw' \<and>
            (\<forall>b<set_next pw. set_cells pw' b = set_cells pw b) \<and>
            (\<forall>x\<in>cached_addrs w'. x < a))"
  using assms
proof (induction w arbitrary: pw)
  case (EmptyWalker x)
  have u: "set_next pw \<le> set_next pw' \<and> a < set_next pw' \<and>
            (\<forall>b<set_next pw. set_cells pw' b = set_cells pw b) \<and>
            (\<forall>x\<in>cached_addrs w'. x < set_next pw')"
    if "u_possible (EmptyWalker x) pw = (a, w', pw')" for a w' pw'
  proof -
    obtain a0 x' p0 where e0: "EmptyWalker_u_possible x pw = (a0, x', p0)"
      by (cases "EmptyWalker_u_possible x pw")
    with that have e: "EmptyWalker_u_possible x pw = (a, x', pw')" and w': "w' = EmptyWalker x'"
      by simp_all
    from EmptyWalker.prems have "\<forall>y\<in>set_option (possibleCached x). y < set_next pw" by simp
    from EmptyWalker_u_possible_alloc [OF this e] w' show ?thesis by simp
  qed
  have p: "set_next pw \<le> a \<and> a < set_next pw' \<and>
            (\<forall>b<set_next pw. set_cells pw' b = set_cells pw b) \<and>
            (\<forall>x\<in>cached_addrs w'. x < a)"
    if "possible (EmptyWalker x) pw = (a, w', pw')" for a w' pw'
    using that EmptyWalker.prems
    by (auto simp: EmptyWalker_possible_def new_EventSet_def)
  from u p show ?case by blast
next
  case (ValueWalker x)
  have u: "set_next pw \<le> set_next pw' \<and> a < set_next pw' \<and>
            (\<forall>b<set_next pw. set_cells pw' b = set_cells pw b) \<and>
            (\<forall>x\<in>cached_addrs w'. x < set_next pw')"
    if "u_possible (ValueWalker x) pw = (a, w', pw')" for a w' pw'
  proof -
    obtain a0 x' p0 where e0: "ValueWalker_u_possible x pw = (a0, x', p0)"
      by (cases "ValueWalker_u_possible x pw")
    with that have e: "ValueWalker_u_possible x pw = (a, x', pw')" and w': "w' = ValueWalker x'"
      by simp_all
    from ValueWalker.prems have "\<forall>y\<in>set_option (possibleCached x). y < set_next pw" by simp
    from ValueWalker_u_possible_alloc [OF this e] w' show ?thesis by simp
  qed
  have p: "set_next pw \<le> a \<and> a < set_next pw' \<and>
            (\<forall>b<set_next pw. set_cells pw' b = set_cells pw b) \<and>
            (\<forall>x\<in>cached_addrs w'. x < a)"
    if "possible (ValueWalker x) pw = (a, w', pw')" for a w' pw'
  proof -
    obtain a1 w1 pw1 where 1: "u_possible (ValueWalker x) pw = (a1, w1, pw1)"
      by (cases "u_possible (ValueWalker x) pw")
    from that 1 have r: "a = set_next pw1" "w' = w1"
      "pw' = snd (new_EventSet (set_cells pw1 a1) pw1)"
      by (auto simp: new_EventSet_def)
    from u [OF 1] show ?thesis
      unfolding r by (auto simp: new_EventSet_facts)
  qed
  from u p show ?case by blast
next
  case (DefineWalker b nr sub)
  from DefineWalker.prems have s: "\<forall>x\<in>cached_addrs sub. x < set_next pw"
    and c: "\<forall>x\<in>set_option (possibleCached b). x < set_next pw"
    by auto
  note ih = DefineWalker.IH [OF s, THEN conjunct2, rule_format]
  have u: "set_next pw \<le> a \<and> a < set_next pw' \<and>
            (\<forall>b<set_next pw. set_cells pw' b = set_cells pw b) \<and>
            (\<forall>x\<in>cached_addrs w'. x < set_next pw')"
    if "u_possible (DefineWalker b nr sub) pw = (a, w', pw')" for a w' pw'
  proof -
    obtain a0 sub' p0 where e0: "possible sub pw = (a0, sub', p0)"
      by (cases "possible sub pw")
    with that have e: "possible sub pw = (a, sub', pw')" and w': "w' = DefineWalker b nr sub'"
      by simp_all
    from ih [OF e] c show ?thesis
      unfolding w' by (auto intro: less_trans less_le_trans)
  qed
  have p: "set_next pw \<le> a \<and> a < set_next pw' \<and>
            (\<forall>b<set_next pw. set_cells pw' b = set_cells pw b) \<and>
            (\<forall>x\<in>cached_addrs w'. x < a)"
    if "possible (DefineWalker b nr sub) pw = (a, w', pw')" for a w' pw'
  proof -
    obtain a1 w1 pw1 where 1: "u_possible (DefineWalker b nr sub) pw = (a1, w1, pw1)"
      by (cases "u_possible (DefineWalker b nr sub) pw")
    from that 1 have r: "a = set_next pw1" "w' = w1"
      "pw' = snd (new_EventSet (set_cells pw1 a1) pw1)"
      by (auto simp: new_EventSet_def)
    from u [OF 1] show ?thesis
      unfolding r by (auto simp: new_EventSet_facts)
  qed
  from u p show ?case by (meson order.strict_implies_order order_trans)
qed

lemma EmptyWalker_u_possible_mutate:
  assumes "x < set_next pw"
  shows "EmptyWalker_u_possible w (mutate_set x evs pw) =
           (case EmptyWalker_u_possible w pw of (c, w2, pw2) \<Rightarrow> (c, w2, mutate_set x evs pw2))"
  using new_EventSet_mutate [OF assms, of "[]" evs]
  by (simp add: EmptyWalker_u_possible_def case_prod_unfold Let_def split: option.splits)

lemma ValueWalker_u_possible_mutate:
  assumes "x < set_next pw"
  shows "ValueWalker_u_possible w (mutate_set x evs pw) =
           (case ValueWalker_u_possible w pw of (c, w2, pw2) \<Rightarrow> (c, w2, mutate_set x evs pw2))"
proof -
  have 1: "new_EventSet es (mutate_set x evs pw) =
           (fst (new_EventSet es pw), mutate_set x evs (snd (new_EventSet es pw)))" for es
    by (rule new_EventSet_mutate [OF assms])
  from assms have "x < set_next (pw\<lparr>events := e\<rparr>)" for e by simp
  then have 2: "new_EventSet es ((mutate_set x evs pw)\<lparr>events := e\<rparr>) =
           (fst (new_EventSet es (pw\<lparr>events := e\<rparr>)),
            mutate_set x evs (snd (new_EventSet es (pw\<lparr>events := e\<rparr>))))" for es e
    using new_EventSet_mutate [of x "pw\<lparr>events := e\<rparr>" es evs]
    by (simp add: mutate_set_facts)
  show ?thesis
    by (simp add: ValueWalker_u_possible_def case_prod_unfold Let_def 1 2 mutate_set_facts
          split: option.splits)
qed

lemma leaf_u_possible_origin:
  "EmptyWalker_u_possible w pw = (a, w', pw') \<Longrightarrow>
     a \<in> set_option (possibleCached w) \<or> a = set_next pw"
  "ValueWalker_u_possible v pw = (a, v', pw') \<Longrightarrow>
     a \<in> set_option (possibleCached v) \<or> a = set_next pw"
  by (auto simp: EmptyWalker_u_possible_def ValueWalker_u_possible_def new_EventSet_def
        case_prod_unfold Let_def split: option.splits if_splits)

lemma copy_mutate:
  assumes "x < set_next pw1" and "a1 \<noteq> x"
  shows "new_EventSet (set_cells (mutate_set x evs pw1) a1) (mutate_set x evs pw1) =
         (fst (new_EventSet (set_cells pw1 a1) pw1),
          mutate_set x evs (snd (new_EventSet (set_cells pw1 a1) pw1)))"
  using new_EventSet_mutate [OF assms(1), of "set_cells pw1 a1" evs] assms(2)
  by (simp add: mutate_set_facts)

lemma possible_mutate:
  assumes "\<forall>y\<in>cached_addrs w. y < set_next pw" and "x < set_next pw" and "x \<notin> cached_addrs w"
  shows "u_possible w (mutate_set x evs pw) =
           (case u_possible w pw of (c, w2, pw2) \<Rightarrow> (c, w2, mutate_set x evs pw2)) \<and>
         possible w (mutate_set x evs pw) =
           (case possible w pw of (c, w2, pw2) \<Rightarrow> (c, w2, mutate_set x evs pw2))"
  using assms
proof (induction w arbitrary: pw)
  case (EmptyWalker e)
  have u: "u_possible (EmptyWalker e) (mutate_set x evs pw) =
           (case u_possible (EmptyWalker e) pw of (c, w2, pw2) \<Rightarrow> (c, w2, mutate_set x evs pw2))"
    by (simp add: EmptyWalker_u_possible_mutate [OF EmptyWalker.prems(2)] case_prod_unfold Let_def)
  have p: "possible (EmptyWalker e) (mutate_set x evs pw) =
           (case possible (EmptyWalker e) pw of (c, w2, pw2) \<Rightarrow> (c, w2, mutate_set x evs pw2))"
    by (simp add: EmptyWalker_possible_def new_EventSet_mutate [OF EmptyWalker.prems(2)]
          case_prod_unfold Let_def)
  from u p show ?case ..
next
  case (ValueWalker v)
  have u: "u_possible (ValueWalker v) (mutate_set x evs pw) =
           (case u_possible (ValueWalker v) pw of (c, w2, pw2) \<Rightarrow> (c, w2, mutate_set x evs pw2))"
    by (simp add: ValueWalker_u_possible_mutate [OF ValueWalker.prems(2)] case_prod_unfold Let_def)
  obtain a1 v1 pw1 where 1: "ValueWalker_u_possible v pw = (a1, v1, pw1)"
    by (cases "ValueWalker_u_possible v pw")
  from ValueWalker.prems(1) have c: "\<forall>y\<in>set_option (possibleCached v). y < set_next pw"
    by simp
  from leaf_u_possible_origin(2) [OF 1] ValueWalker.prems(2,3) have ne: "a1 \<noteq> x"
    by auto
  from ValueWalker_u_possible_alloc(1) [OF c 1] ValueWalker.prems(2) have lt: "x < set_next pw1"
    by simp
  have p: "possible (ValueWalker v) (mutate_set x evs pw) =
           (case possible (ValueWalker v) pw of (c, w2, pw2) \<Rightarrow> (c, w2, mutate_set x evs pw2))"
    by (simp add: ValueWalker_u_possible_mutate [OF ValueWalker.prems(2)] 1 copy_mutate [OF lt ne]
          case_prod_unfold Let_def)
  from u p show ?case ..
next
  case (DefineWalker b nr sub)
  from DefineWalker.prems have s: "\<forall>y\<in>cached_addrs sub. y < set_next pw"
    and n: "x \<notin> cached_addrs sub"
    by auto
  note ih = DefineWalker.IH [OF s DefineWalker.prems(2) n, THEN conjunct2]
  have u: "u_possible (DefineWalker b nr sub) (mutate_set x evs pw) =
           (case u_possible (DefineWalker b nr sub) pw of
              (c, w2, pw2) \<Rightarrow> (c, w2, mutate_set x evs pw2))"
    by (simp add: ih case_prod_unfold Let_def)
  obtain a1 s1 pw1 where 1: "possible sub pw = (a1, s1, pw1)"
    by (cases "possible sub pw")
  from possible_alloc [OF s, THEN conjunct2, rule_format, OF 1] DefineWalker.prems(2)
  have ne: "a1 \<noteq> x" and lt: "x < set_next pw1"
    by auto
  have p: "possible (DefineWalker b nr sub) (mutate_set x evs pw) =
           (case possible (DefineWalker b nr sub) pw of
              (c, w2, pw2) \<Rightarrow> (c, w2, mutate_set x evs pw2))"
    by (simp add: ih 1 copy_mutate [OF lt ne] case_prod_unfold Let_def)
  from u p show ?case ..
qed

text \<open>
  C7. In a heap where the cached sets of a walker are allocated objects, \<open>possible()\<close>
  returns a set object that did not exist before the call, so it is none of the sets
  returned by earlier calls, and it is not the cached set of the walker or of any of its
  subwalkers; the call changes no set that existed, and the cached sets stay allocated,
  so the same holds for every later call. When the caller then changes the returned set
  to hold any other events, a later \<open>possible()\<close> returns the same new object, with the
  same events, and leaves the walker in the same state as without the change. Events are
  handled by \<open>fireEvent\<close> without any access to the heap of sets.
\<close>

theorem possible_returns_fresh_set:
  "(\<forall>x\<in>cached_addrs w. x < set_next pw) \<longrightarrow>
   (let (a, w', pw') = possible w pw
    in set_next pw \<le> a \<and> a < set_next pw' \<and> a \<notin> cached_addrs w' \<and>
       (\<forall>x\<in>cached_addrs w'. x < set_next pw') \<and>
       (\<forall>b<set_next pw. set_cells pw' b = set_cells pw b) \<and>
       (\<forall>evs. let (c, w2, pw2) = possible w' pw';
                   (c', w2', pw2') = possible w' (mutate_set a evs pw')
               in c' = c \<and> c \<noteq> a \<and> w2' = w2 \<and> set_cells pw2' c' = set_cells pw2 c \<and>
                  pw2' = mutate_set a evs pw2))"
proof
  assume wf: "\<forall>x\<in>cached_addrs w. x < set_next pw"
  obtain a w' pw' where 1: "possible w pw = (a, w', pw')"
    by (cases "possible w pw")
  note f = possible_alloc [OF wf, THEN conjunct2, rule_format, OF 1]
  from f have lt: "\<forall>x\<in>cached_addrs w'. x < a" by blast
  then have notin: "a \<notin> cached_addrs w'" by blast
  from lt f have wf': "\<forall>x\<in>cached_addrs w'. x < set_next pw'"
    by (blast intro: less_trans)
  from f have a: "a < set_next pw'" by blast
  have later: "c' = c \<and> c \<noteq> a \<and> w2' = w2 \<and> set_cells pw2' c' = set_cells pw2 c \<and>
               pw2' = mutate_set a evs pw2"
    if 2: "possible w' pw' = (c, w2, pw2)"
      and 3: "possible w' (mutate_set a evs pw') = (c', w2', pw2')" for evs c w2 pw2 c' w2' pw2'
  proof -
    from possible_mutate [OF wf' a notin, THEN conjunct2, of evs] 2 3
    have e: "c' = c" "w2' = w2" "pw2' = mutate_set a evs pw2"
      by simp_all
    from possible_alloc [OF wf', THEN conjunct2, rule_format, OF 2] a have "c \<noteq> a"
      by simp
    with e show ?thesis
      by (simp add: mutate_set_facts)
  qed
  have L: "\<forall>evs. (case possible w' pw' of
          (c, w2, pw2) \<Rightarrow>
            case possible w' (mutate_set a evs pw') of
            (c', w2', pw2') \<Rightarrow>
              c' = c \<and> c \<noteq> a \<and> w2' = w2 \<and> set_cells pw2' c' = set_cells pw2 c \<and>
              pw2' = mutate_set a evs pw2)"
  proof
    fix evs
    obtain c w2 pw2 where 2: "possible w' pw' = (c, w2, pw2)"
      by (cases "possible w' pw'")
    obtain c' w2' pw2' where 3: "possible w' (mutate_set a evs pw') = (c', w2', pw2')"
      by (cases "possible w' (mutate_set a evs pw')")
    from later [OF 2 3] show "case possible w' pw' of
          (c, w2, pw2) \<Rightarrow>
            case possible w' (mutate_set a evs pw') of
            (c', w2', pw2') \<Rightarrow>
              c' = c \<and> c \<noteq> a \<and> w2' = w2 \<and> set_cells pw2' c' = set_cells pw2 c \<and>
              pw2' = mutate_set a evs pw2"
      unfolding 2 3 prod.case .
  qed
  show "let (a, w', pw') = possible w pw
    in set_next pw \<le> a \<and> a < set_next pw' \<and> a \<notin> cached_addrs w' \<and>
       (\<forall>x\<in>cached_addrs w'. x < set_next pw') \<and>
       (\<forall>b<set_next pw. set_cells pw' b = set_cells pw b) \<and>
       (\<forall>evs. let (c, w2, pw2) = possible w' pw';
                   (c', w2', pw2') = possible w' (mutate_set a evs pw')
               in c' = c \<and> c \<noteq> a \<and> w2' = w2 \<and> set_cells pw2' c' = set_cells pw2 c \<and>
                  pw2' = mutate_set a evs pw2)"
    unfolding 1 Let_def prod.case
    using f a notin wf' L by (intro conjI) blast+
qed

theorem possible_returns_fresh_set_witness:
  "cached_addrs a_walker = {} \<and>
   fst (possible a_walker pworld_init) = 1 \<and>
   cached_addrs (fst (snd (possible a_walker pworld_init))) = {0} \<and>
   fst (possible a_walker pworld_init) \<notin> cached_addrs (fst (snd (possible a_walker pworld_init)))"
proof -
  have h: "\<forall>x\<in>cached_addrs a_walker. x < set_next pworld_init"
    by (simp add: a_walker_eval)
  have 1: "fst (possible a_walker pworld_init) = 1"
    by (simp add: a_walker_eval ValueWalker_u_possible_def case_prod_unfold Let_def
          new_EventSet_def pworld_init_def)
  have 2: "cached_addrs (fst (snd (possible a_walker pworld_init))) = {0}"
    by (simp add: a_walker_eval ValueWalker_u_possible_def case_prod_unfold Let_def
          new_EventSet_def pworld_init_def)
  from possible_returns_fresh_set [of a_walker pworld_init] h
  have "fst (possible a_walker pworld_init)
          \<notin> cached_addrs (fst (snd (possible a_walker pworld_init)))"
    by (simp add: case_prod_unfold Let_def)
  moreover have "cached_addrs a_walker = {}"
    by (simp add: a_walker_eval)
  ultimately show ?thesis using 1 2 by blast
qed

section \<open>Firing the events a walker offers\<close>





lemma memo_ok_walker_id [simp]: "memo_ok memo (cw\<lparr>next_walker_id := i\<rparr>) = memo_ok memo cw"
  by (simp add: memo_ok_def)















end
